theory Spec2Isabelle
  imports Main "HOL-Library.Sublist" "HOL-Library.Word"
begin

section \<open>Python strings\<close>

text \<open>
  A Python \<open>str\<close> is modelled as a \<open>string\<close>, one \<open>char\<close> per character.
  \<open>str_replace s old new\<close> is \<open>s.replace(old, new)\<close>: scanning from the left, every
  non-overlapping occurrence of \<open>old\<close> is replaced by \<open>new\<close>. For an empty \<open>old\<close> Python
  puts \<open>new\<close> in front of every character and at the end.
\<close>

fun replace_from :: "string \<Rightarrow> string \<Rightarrow> string \<Rightarrow> string" where
  "replace_from old new [] = []"
| "replace_from old new (ch # rest) =
     (if old \<noteq> [] \<and> prefix old (ch # rest)
      then new @ replace_from old new (drop (length old) (ch # rest))
      else ch # replace_from old new rest)"

definition str_replace :: "string \<Rightarrow> string \<Rightarrow> string \<Rightarrow> string" where
  "str_replace s old new =
     (if old = [] then new @ concat (map (\<lambda>ch. ch # new) s) else replace_from old new s)"

text \<open>\<open>str_in sub s\<close> is Python's \<open>sub in s\<close> on strings: \<open>sub\<close> occurs in \<open>s\<close> as a
  contiguous substring (the empty string occurs in every string).\<close>

fun str_in :: "string \<Rightarrow> string \<Rightarrow> bool" where
  "str_in sub [] = (sub = [])"
| "str_in sub (ch # rest) = (prefix sub (ch # rest) \<or> str_in sub rest)"

section \<open>Exceptions and the session\<close>

text \<open>
  The exceptions that occur: \<open>OSError\<close> stands for \<open>OSError\<close> and all its subclasses
  (\<open>FileNotFoundError\<close>, \<open>PermissionError\<close>, pySerial's \<open>SerialException\<close>), which is
  what \<open>except OSError\<close> catches; \<open>IndexError\<close> is raised by indexing an empty string;
  \<open>PyException msg\<close> is \<open>Exception(msg)\<close>.
\<close>

datatype exn = OSError | IndexError | PyException string

text \<open>The namespace returned by \<open>parse_args\<close>; \<open>--port\<close> has no default, so it may be
  \<open>None\<close>.\<close>

record args =
  arg_path :: string
  arg_drive :: string
  arg_verbose :: bool
  arg_reboot :: bool
  arg_port :: "string option"
  arg_main :: string

text \<open>The fields of a \<open>PyboardSync\<close> object.\<close>

record session =
  path :: string
  drive :: string
  verbose :: bool
  reboot :: bool
  port :: "string option"
  main_file :: string

section \<open>The path on the drive\<close>

definition get_drive_path :: "session \<Rightarrow> string \<Rightarrow> exn + string" where
  "get_drive_path c src_path =
     (let real_path = str_replace src_path (path c) [] in
      case real_path of
        [] \<Rightarrow> Inl IndexError
      | ch # rest \<Rightarrow>
          Inr (drive c @ '':'' @
               (if ch = CHR 0x5C \<or> ch = CHR ''/'' then rest else real_path)))"

section \<open>The outside world\<close>

text \<open>
  The file system, the serial line, the clock and the console are outside the program.
  A \<open>world\<close> holds the files (path to contents, for the host's and the board's paths
  alike), the calls made so far in the order they were made (\<open>trace\<close>), and for each kind
  of fallible call a schedule of transient faults: the \<open>k\<close>-th call of that kind raises
  \<open>OSError\<close> (drive busy, file locked, volume not mounted, port refused) when the
  \<open>k\<close>-th entry of its schedule is \<open>True\<close>; past the end of the schedule no fault occurs.
  Durations are in milliseconds: \<open>time.sleep(1)\<close> is \<open>Sleep 1000\<close>.
\<close>

type_synonym byte = "8 word"

datatype call =
    Remove string
  | Copyfile string string
  | SerialOpen string nat nat
  | SerialWrite "byte list"
  | SerialClose
  | Sleep nat
  | Print string

datatype event = Did call | Failed call

record world =
  files :: "string \<rightharpoonup> string"
  remove_faults :: "bool list"
  copy_faults :: "bool list"
  serial_faults :: "bool list"
  trace :: "event list"

type_synonym 'a io = "world \<Rightarrow> (exn + 'a) \<times> world"

definition io_return :: "'a \<Rightarrow> 'a io" where
  "io_return x w = (Inr x, w)"

definition io_of :: "exn + 'a \<Rightarrow> 'a io" where
  "io_of r w = (r, w)"

definition io_do :: "(world \<Rightarrow> world) \<Rightarrow> unit io" where
  "io_do f w = (Inr (), f w)"

text \<open>Sequencing: an exception of the first part skips the rest.\<close>

definition io_bind :: "'a io \<Rightarrow> ('a \<Rightarrow> 'b io) \<Rightarrow> 'b io" where
  "io_bind m f w = (case m w of (Inl e, w1) \<Rightarrow> (Inl e, w1) | (Inr x, w1) \<Rightarrow> f x w1)"

definition io_then :: "unit io \<Rightarrow> 'b io \<Rightarrow> 'b io" where
  "io_then m k = io_bind m (\<lambda>_. k)"

definition emit :: "event \<Rightarrow> world \<Rightarrow> world" where
  "emit e w = w\<lparr>trace := trace w @ [e]\<rparr>"

definition hd_fault :: "bool list \<Rightarrow> bool" where
  "hd_fault fs = (case fs of [] \<Rightarrow> False | f # _ \<Rightarrow> f)"

text \<open>\<open>os.remove(p)\<close>: raises \<open>FileNotFoundError\<close>, an \<open>OSError\<close>, when there is no file
  at \<open>p\<close>.\<close>

definition os_remove :: "string \<Rightarrow> unit io" where
  "os_remove p w =
     (let w1 = w\<lparr>remove_faults := tl (remove_faults w)\<rparr> in
      if hd_fault (remove_faults w) \<or> files w p = None
      then (Inl OSError, emit (Failed (Remove p)) w1)
      else (Inr (), emit (Did (Remove p)) (w1\<lparr>files := (files w)(p := None)\<rparr>)))"

text \<open>\<open>shutil.copyfile(src, dst)\<close>: raises \<open>FileNotFoundError\<close> when there is no file at
  \<open>src\<close>; otherwise \<open>dst\<close> is created or overwritten with the contents of \<open>src\<close>.\<close>

definition shutil_copyfile :: "string \<Rightarrow> string \<Rightarrow> unit io" where
  "shutil_copyfile src dst w =
     (let w1 = w\<lparr>copy_faults := tl (copy_faults w)\<rparr> in
      case (if hd_fault (copy_faults w) then None else files w src) of
        None \<Rightarrow> (Inl OSError, emit (Failed (Copyfile src dst)) w1)
      | Some data \<Rightarrow>
          (Inr (), emit (Did (Copyfile src dst)) (w1\<lparr>files := (files w)(dst \<mapsto> data)\<rparr>)))"

text \<open>
  \<open>serial.Serial(port, baud, timeout=t)\<close> opens the port unless \<open>port\<close> is \<open>None\<close>; the
  result says whether the object is open. \<open>com.write\<close> on an object that is not open
  raises (pySerial's exceptions derive from \<open>OSError\<close>).
\<close>

definition serial_Serial :: "string option \<Rightarrow> nat \<Rightarrow> nat \<Rightarrow> bool io" where
  "serial_Serial prt baud timeout w =
     (case prt of
        None \<Rightarrow> (Inr False, w)
      | Some p \<Rightarrow>
          (let w1 = w\<lparr>serial_faults := tl (serial_faults w)\<rparr> in
           if hd_fault (serial_faults w)
           then (Inl OSError, emit (Failed (SerialOpen p baud timeout)) w1)
           else (Inr True, emit (Did (SerialOpen p baud timeout)) w1)))"

definition com_write :: "bool \<Rightarrow> byte list \<Rightarrow> unit io" where
  "com_write is_open bs w =
     (if \<not> is_open then (Inl OSError, emit (Failed (SerialWrite bs)) w)
      else
        (let w1 = w\<lparr>serial_faults := tl (serial_faults w)\<rparr> in
         if hd_fault (serial_faults w)
         then (Inl OSError, emit (Failed (SerialWrite bs)) w1)
         else (Inr (), emit (Did (SerialWrite bs)) w1)))"

definition com_close :: "world \<Rightarrow> world" where
  "com_close w = emit (Did SerialClose) w"

definition time_sleep :: "nat \<Rightarrow> world \<Rightarrow> world" where
  "time_sleep ms w = emit (Did (Sleep ms)) w"

text \<open>\<open>s.encode()\<close> is the UTF-8 encoding: one byte for a character below 128, two bytes
  for the others that a \<open>char\<close> can hold.\<close>

definition utf8 :: "char \<Rightarrow> byte list" where
  "utf8 ch =
     (let n = (of_char ch :: nat) in
      if n < 128 then [of_nat n] else [of_nat (192 + n div 64), of_nat (128 + n mod 64)])"

definition encode :: "string \<Rightarrow> byte list" where
  "encode s = concat (map utf8 s)"

section \<open>The session's operations\<close>

definition print_if_verbose :: "session \<Rightarrow> string \<Rightarrow> world \<Rightarrow> world" where
  "print_if_verbose c s w = (if verbose c then emit (Did (Print s)) w else w)"

definition init :: "args \<Rightarrow> session io" where
  "init a w =
     (let c = \<lparr>path = arg_path a, drive = arg_drive a, verbose = arg_verbose a,
                reboot = arg_reboot a, port = arg_port a, main_file = arg_main a\<rparr> in
      if reboot c \<and> (port c = None \<or> port c = Some [])
      then (Inl (PyException ''Port must be set when using reboot mode''), w)
      else (Inr c, print_if_verbose c ''Watching files'' w))"

definition reboot_board :: "session \<Rightarrow> unit io" where
  "reboot_board c =
     io_bind (serial_Serial (port c) 115200 1) (\<lambda>com.
     io_then (io_do (print_if_verbose c ''Soft rebooting board''))
    (io_then (com_write com (encode [CHR 0x03]))
    (io_then (io_do (time_sleep 100))
    (io_then (com_write com (encode [CHR 0x04]))
    (io_then (io_do (time_sleep 100))
    (io_then (io_do com_close)
             (io_do (print_if_verbose c ''Soft rebooting complete''))))))))"

definition retry_msg :: string where
  "retry_msg = ''Failed to upload. Retrying in a second.''"

definition giveup_msg :: string where
  "giveup_msg = ''Maximum retries exceeded. '' @ ''If you have an open REPL session, '' @
                ''please close it or send Ctrl+C to continue.''"

text \<open>The body of the \<open>try\<close> block of \<open>upload_file\<close>: one attempt.\<close>

definition upload_body :: "session \<Rightarrow> string \<Rightarrow> unit io" where
  "upload_body c src_path =
     io_bind (io_of (get_drive_path c src_path)) (\<lambda>drive_path.
     io_then (if str_in (main_file c) src_path
              then io_then (io_do (print_if_verbose c (''Removing '' @ main_file c)))
                           (os_remove drive_path)
              else io_return ())
    (io_then (shutil_copyfile src_path drive_path)
             (if reboot c then reboot_board c else io_return ())))"

text \<open>\<open>except OSError\<close> catches \<open>OSError\<close> only; any other exception leaves the call.\<close>

function upload_file :: "session \<Rightarrow> string \<Rightarrow> int \<Rightarrow> unit io" where
  "upload_file c src_path retries w =
     (case upload_body c src_path w of
        (Inr u, w1) \<Rightarrow> (Inr u, w1)
      | (Inl OSError, w1) \<Rightarrow>
          (if retries > 0
           then upload_file c src_path (retries - 1)
                  (time_sleep 1000 (print_if_verbose c retry_msg w1))
           else (Inr (), print_if_verbose c giveup_msg w1))
      | (Inl e, w1) \<Rightarrow> (Inl e, w1))"
  by pat_completeness auto
termination
  by (relation "measure (\<lambda>(c, src_path, retries, w). nat retries)") auto

declare upload_file.simps [simp del]

text \<open>The body of the \<open>try\<close> block of \<open>delete_file\<close>.\<close>

definition delete_body :: "session \<Rightarrow> string \<Rightarrow> unit io" where
  "delete_body c src_path =
     io_bind (io_of (get_drive_path c src_path)) (\<lambda>drive_path.
     io_then (os_remove drive_path)
             (if reboot c then reboot_board c else io_return ()))"

definition delete_file :: "session \<Rightarrow> string \<Rightarrow> int \<Rightarrow> unit io" where
  "delete_file c src_path retries w =
     (case delete_body c src_path w of
        (Inr u, w1) \<Rightarrow> (Inr u, w1)
      | (Inl OSError, w1) \<Rightarrow>
          (if retries > 0
           then upload_file c src_path (retries - 1)
                  (time_sleep 1000 (print_if_verbose c retry_msg w1))
           else (Inr (), print_if_verbose c giveup_msg w1))
      | (Inl e, w1) \<Rightarrow> (Inl e, w1))"

text \<open>The event handlers; \<open>src_path\<close> is the event's \<open>src_path\<close>.\<close>

definition on_modified :: "session \<Rightarrow> string \<Rightarrow> unit io" where
  "on_modified c src_path =
     io_bind (io_of (get_drive_path c src_path)) (\<lambda>drive_path.
     io_then (io_do (print_if_verbose c (''Modifying file at '' @ drive_path)))
             (upload_file c src_path 4))"

definition on_created :: "session \<Rightarrow> string \<Rightarrow> unit io" where
  "on_created c src_path =
     io_bind (io_of (get_drive_path c src_path)) (\<lambda>drive_path.
     io_then (io_do (print_if_verbose c (''Creating file at '' @ drive_path)))
             (upload_file c src_path 4))"

definition on_deleted :: "session \<Rightarrow> string \<Rightarrow> unit io" where
  "on_deleted c src_path =
     io_bind (io_of (get_drive_path c src_path)) (\<lambda>drive_path.
     io_then (io_do (print_if_verbose c (''Deleting file at '' @ drive_path)))
             (delete_file c src_path 4))"

section \<open>Reading a trace\<close>

fun call_of :: "event \<Rightarrow> call" where
  "call_of (Did x) = x"
| "call_of (Failed x) = x"

fun is_print :: "event \<Rightarrow> bool" where
  "is_print (Did (Print _)) = True"
| "is_print (Failed (Print _)) = True"
| "is_print _ = False"

fun is_copy :: "event \<Rightarrow> bool" where
  "is_copy (Did (Copyfile _ _)) = True"
| "is_copy (Failed (Copyfile _ _)) = True"
| "is_copy _ = False"

fun is_serial :: "event \<Rightarrow> bool" where
  "is_serial (Did (SerialOpen _ _ _)) = True"
| "is_serial (Failed (SerialOpen _ _ _)) = True"
| "is_serial (Did (SerialWrite _)) = True"
| "is_serial (Failed (SerialWrite _)) = True"
| "is_serial (Did SerialClose) = True"
| "is_serial (Failed SerialClose) = True"
| "is_serial _ = False"

text \<open>Copy calls made, copy calls that succeeded, one-second waits.\<close>

definition copy_attempts :: "event list \<Rightarrow> nat" where
  "copy_attempts tr = length (filter is_copy tr)"

fun is_copy_done :: "event \<Rightarrow> bool" where
  "is_copy_done (Did (Copyfile _ _)) = True"
| "is_copy_done _ = False"

definition copies_done :: "event list \<Rightarrow> nat" where
  "copies_done tr = length (filter is_copy_done tr)"

definition backoffs :: "event list \<Rightarrow> nat" where
  "backoffs tr = count_list tr (Did (Sleep 1000))"

text \<open>The calls of one soft reboot on port \<open>p\<close>, console output left out.\<close>

definition reboot_calls :: "string \<Rightarrow> call list" where
  "reboot_calls p =
     [SerialOpen p 115200 1, SerialWrite [0x03], Sleep 100, SerialWrite [0x04], Sleep 100,
      SerialClose]"

text \<open>Events that a soft reboot may leave in the trace.\<close>

definition quiet :: "event \<Rightarrow> bool" where
  "quiet e = (is_serial e \<or> is_print e \<or> e = Did (Sleep 100))"

text \<open>None of the next \<open>k\<close> calls of a kind is scheduled to fail.\<close>

definition no_fault :: "nat \<Rightarrow> bool list \<Rightarrow> bool" where
  "no_fault k fs = (True \<notin> set (take k fs))"

text \<open>"Every attempt fails with an \<open>OSError\<close>, until the budget is used up", following the
  attempts that \<open>upload_file\<close> and \<open>delete_file\<close> make.\<close>

function upload_all_fail :: "session \<Rightarrow> string \<Rightarrow> int \<Rightarrow> world \<Rightarrow> bool" where
  "upload_all_fail c src_path retries w =
     (case upload_body c src_path w of
        (Inl OSError, w1) \<Rightarrow>
          (if retries > 0
           then upload_all_fail c src_path (retries - 1)
                  (time_sleep 1000 (print_if_verbose c retry_msg w1))
           else True)
      | _ \<Rightarrow> False)"
  by pat_completeness auto
termination
  by (relation "measure (\<lambda>(c, src_path, retries, w). nat retries)") auto

declare upload_all_fail.simps [simp del]

definition delete_all_fail :: "session \<Rightarrow> string \<Rightarrow> int \<Rightarrow> world \<Rightarrow> bool" where
  "delete_all_fail c src_path retries w =
     (case delete_body c src_path w of
        (Inl OSError, w1) \<Rightarrow>
          (if retries > 0
           then upload_all_fail c src_path (retries - 1)
                  (time_sleep 1000 (print_if_verbose c retry_msg w1))
           else True)
      | _ \<Rightarrow> False)"

section \<open>Sessions and worlds to run the operations on\<close>

definition board_session :: session where
  "board_session =
     \<lparr>path = ''/a'', drive = ''V'', verbose = True, reboot = True, port = Some ''COM4'',
      main_file = ''main.py''\<rparr>"

definition plain_session :: session where
  "plain_session =
     \<lparr>path = ''/a'', drive = ''V'', verbose = True, reboot = False, port = None,
      main_file = ''main.py''\<rparr>"

text \<open>A host directory with two files, and an empty drive.\<close>

definition fresh_world :: world where
  "fresh_world =
     \<lparr>files = [''/a/main.py'' \<mapsto> ''print(1)'', ''/a/x.txt'' \<mapsto> ''x''],
      remove_faults = [], copy_faults = [], serial_faults = [], trace = []\<rparr>"

text \<open>The drive already holds an older \<open>main.py\<close>.\<close>

definition synced_world :: world where
  "synced_world =
     \<lparr>files = [''/a/main.py'' \<mapsto> ''print(1)'', ''V:main.py'' \<mapsto> ''print(0)''],
      remove_faults = [], copy_faults = [], serial_faults = [], trace = []\<rparr>"

text \<open>The host file \<open>/a/x.txt\<close> has been deleted, its copy on the drive is still there,
  and the drive is busy at the first removal.\<close>

definition stale_world :: world where
  "stale_world =
     \<lparr>files = [''V:x.txt'' \<mapsto> ''x''],
      remove_faults = [True], copy_faults = [], serial_faults = [], trace = []\<rparr>"

section \<open>Basic facts\<close>

lemma emit_fields [simp]:
  "trace (emit e w) = trace w @ [e]"
  "files (emit e w) = files w"
  "remove_faults (emit e w) = remove_faults w"
  "copy_faults (emit e w) = copy_faults w"
  "serial_faults (emit e w) = serial_faults w"
  by (simp_all add: emit_def)

lemma print_fields [simp]:
  "trace (print_if_verbose c s w) = trace w @ (if verbose c then [Did (Print s)] else [])"
  "files (print_if_verbose c s w) = files w"
  "remove_faults (print_if_verbose c s w) = remove_faults w"
  "copy_faults (print_if_verbose c s w) = copy_faults w"
  "serial_faults (print_if_verbose c s w) = serial_faults w"
  by (simp_all add: print_if_verbose_def)

lemma sleep_fields [simp]:
  "trace (time_sleep ms w) = trace w @ [Did (Sleep ms)]"
  "files (time_sleep ms w) = files w"
  "remove_faults (time_sleep ms w) = remove_faults w"
  "copy_faults (time_sleep ms w) = copy_faults w"
  "serial_faults (time_sleep ms w) = serial_faults w"
  by (simp_all add: time_sleep_def)

lemma close_fields [simp]:
  "trace (com_close w) = trace w @ [Did SerialClose]"
  "files (com_close w) = files w"
  "remove_faults (com_close w) = remove_faults w"
  "copy_faults (com_close w) = copy_faults w"
  "serial_faults (com_close w) = serial_faults w"
  by (simp_all add: com_close_def)

lemma encode_etx [simp]: "encode [CHR 0x03] = [0x03]"
  by (simp add: encode_def utf8_def)

lemma encode_eot [simp]: "encode [CHR 0x04] = [0x04]"
  by (simp add: encode_def utf8_def)

lemma upload_file_done:
  "upload_body c src w = (Inr u, w1) \<Longrightarrow> upload_file c src n w = (Inr u, w1)"
  by (simp add: upload_file.simps [of c src n w])

lemma upload_file_retry:
  "upload_body c src w = (Inl OSError, w1) \<Longrightarrow> 0 < n \<Longrightarrow>
   upload_file c src n w =
     upload_file c src (n - 1) (time_sleep 1000 (print_if_verbose c retry_msg w1))"
  by (simp add: upload_file.simps [of c src n w])

lemma upload_file_giveup:
  "upload_body c src w = (Inl OSError, w1) \<Longrightarrow> \<not> 0 < n \<Longrightarrow>
   upload_file c src n w = (Inr (), print_if_verbose c giveup_msg w1)"
  by (simp add: upload_file.simps [of c src n w])

lemma upload_file_raise:
  "upload_body c src w = (Inl e, w1) \<Longrightarrow> e \<noteq> OSError \<Longrightarrow>
   upload_file c src n w = (Inl e, w1)"
  by (cases e) (simp_all add: upload_file.simps [of c src n w])

text \<open>What one call of each kind does to the trace.\<close>

lemma os_remove_cases:
  "os_remove p w = (r, w1) \<Longrightarrow>
     (r = Inl OSError \<and> trace w1 = trace w @ [Failed (Remove p)] \<and> files w1 = files w)
   \<or> (r = Inr () \<and> trace w1 = trace w @ [Did (Remove p)] \<and> files w p \<noteq> None)"
  by (auto simp: os_remove_def Let_def split: if_splits)

lemma os_remove_absent:
  "files w p = None \<Longrightarrow>
   os_remove p w = (Inl OSError, emit (Failed (Remove p)) (w\<lparr>remove_faults := tl (remove_faults w)\<rparr>))"
  by (simp add: os_remove_def Let_def)


lemmas io_defs = io_bind_def io_then_def io_do_def io_return_def io_of_def

lemma reboot_board_frame:
  assumes "reboot_board c w = (r, w1)"
  shows "files w1 = files w \<and> copy_faults w1 = copy_faults w
       \<and> remove_faults w1 = remove_faults w
       \<and> (r = Inr () \<or> r = Inl OSError)
       \<and> (\<exists>evs. trace w1 = trace w @ evs \<and> list_all quiet evs)"
  using assms
  by (auto simp: reboot_board_def io_defs serial_Serial_def com_write_def Let_def quiet_def
           split: option.splits if_splits)

lemma reboot_board_calls:
  assumes "port c = Some p" and "reboot_board c w = (r, w1)"
  shows "\<exists>evs. trace w1 = trace w @ evs
       \<and> prefix (map call_of (filter (\<lambda>e. \<not> is_print e) evs)) (reboot_calls p)
       \<and> (r = Inr () \<longrightarrow> filter (\<lambda>e. \<not> is_print e) evs = map Did (reboot_calls p))"
  using assms
  by (auto simp: reboot_board_def io_defs serial_Serial_def com_write_def Let_def reboot_calls_def
           split: option.splits if_splits)

lemma no_fault_Suc: "no_fault (Suc k) fs = (\<not> hd_fault fs \<and> no_fault k (tl fs))"
  by (cases fs) (auto simp: no_fault_def hd_fault_def)

lemma reboot_board_ok:
  assumes "port c = Some p" and "no_fault 3 (serial_faults w)"
  shows "reboot_board c w =
          (Inr (),
           w\<lparr>serial_faults := tl (tl (tl (serial_faults w))),
             trace := trace w @ [Did (SerialOpen p 115200 1)]
               @ (if verbose c then [Did (Print ''Soft rebooting board'')] else [])
               @ [Did (SerialWrite [0x03]), Did (Sleep 100), Did (SerialWrite [0x04]),
                  Did (Sleep 100), Did SerialClose]
               @ (if verbose c then [Did (Print ''Soft rebooting complete'')] else [])\<rparr>)"
  using assms
  by (simp add: reboot_board_def io_defs serial_Serial_def com_write_def Let_def
        numeral_3_eq_3 no_fault_Suc emit_def print_if_verbose_def time_sleep_def com_close_def)



section \<open>The path on the drive: claims\<close>

lemma replace_from_self:
  "old \<noteq> [] \<Longrightarrow> replace_from old new (old @ rest) = new @ replace_from old new rest"
  by (cases old) simp_all

lemma str_replace_self: "str_replace r r [] = []"
proof (cases "r = []")
  case True
  then show ?thesis by (simp add: str_replace_def)
next
  case False
  then show ?thesis
    using replace_from_self [of r "[]" "[]"] by (simp add: str_replace_def)
qed

text \<open>Where the root occurs in the source path as its prefix and nowhere else, the result
  is the volume, a colon, and the rest of the path without one leading separator.\<close>

lemma get_drive_path_single_occurrence:
  assumes "path c \<noteq> []" and "replace_from (path c) [] (ch # rest) = ch # rest"
  shows "get_drive_path c (path c @ ch # rest) =
           Inr (drive c @ '':'' @ (if ch = CHR 0x5C \<or> ch = CHR ''/'' then rest else ch # rest))"
  using assms replace_from_self [of "path c" "[]" "ch # rest"]
  by (simp add: get_drive_path_def str_replace_def del: replace_from.simps)

text \<open>
  Claim C4, evaluated on the code. For root \<open>/a\<close>, volume \<open>V\<close> and source \<open>/a/b/c\<close> the
  result is \<open>V:b/c\<close>, as the claim says. But \<open>replace\<close> removes every occurrence of the
  root, not only the leading one: \<open>/a/x/a/y\<close> under root \<open>/a\<close> is mapped to \<open>V:x/y\<close>, where
  the claim gives \<open>V:x/a/y\<close>, and \<open>./main.py\<close> under root \<open>.\<close> is mapped to \<open>V:mainpy\<close>,
  where the claim gives \<open>V:main.py\<close>.
\<close>

theorem C4_get_drive_path_strips_every_occurrence:
  "get_drive_path (plain_session\<lparr>path := ''/a''\<rparr>) ''/a/b/c'' = Inr ''V:b/c''
   \<and> get_drive_path (plain_session\<lparr>path := ''/a''\<rparr>) ''/a/x/a/y'' = Inr ''V:x/y''
   \<and> get_drive_path (plain_session\<lparr>path := ''.''\<rparr>) ''./main.py'' = Inr ''V:mainpy''"
  by (simp add: get_drive_path_def str_replace_def plain_session_def)

text \<open>
  Claim C9: \<open>get_drive_path\<close> raises \<open>IndexError\<close> exactly when removing the root from the
  source path leaves the empty string; this is so for the root path itself; and whenever
  the remainder is not empty it returns a path.
\<close>

theorem C9_get_drive_path_partial:
  "(get_drive_path c src_path = Inl IndexError \<longleftrightarrow> str_replace src_path (path c) [] = [])
   \<and> get_drive_path c (path c) = Inl IndexError
   \<and> (str_replace src_path (path c) [] \<noteq> [] \<longrightarrow> (\<exists>d. get_drive_path c src_path = Inr d))"
  by (auto simp: get_drive_path_def Let_def str_replace_self split: list.splits)

theorem C9_get_drive_path_partial_witness:
  "get_drive_path plain_session ''/a'' = Inl IndexError
   \<and> str_replace ''/a/b'' (path plain_session) [] \<noteq> []
   \<and> (\<exists>d. get_drive_path plain_session ''/a/b'' = Inr d)"
  using C9_get_drive_path_partial [of plain_session "''/a/b''"]
  by (simp add: str_replace_def plain_session_def)

section \<open>Construction of the session: claims\<close>

text \<open>
  Claim C8: \<open>__init__\<close> raises if and only if \<open>reboot\<close> is set and the port is missing or
  empty. It raises before anything else happens (the world is unchanged, "Watching files"
  is not printed); otherwise it returns the session holding the arguments.
\<close>

theorem C8_init_raises_iff_reboot_without_port:
  "(arg_reboot a \<and> (arg_port a = None \<or> arg_port a = Some []) \<longrightarrow>
      init a w = (Inl (PyException ''Port must be set when using reboot mode''), w))
   \<and> (\<not> (arg_reboot a \<and> (arg_port a = None \<or> arg_port a = Some [])) \<longrightarrow>
      (\<exists>c. init a w = (Inr c, print_if_verbose c ''Watching files'' w)
          \<and> path c = arg_path a \<and> drive c = arg_drive a \<and> verbose c = arg_verbose a
          \<and> reboot c = arg_reboot a \<and> port c = arg_port a \<and> main_file c = arg_main a))"
  by (simp add: init_def Let_def)

theorem C8_init_raises_iff_reboot_without_port_witness:
  "init \<lparr>arg_path = ''/a'', arg_drive = ''V'', arg_verbose = True, arg_reboot = True,
         arg_port = None, arg_main = ''main.py''\<rparr> fresh_world
     = (Inl (PyException ''Port must be set when using reboot mode''), fresh_world)
   \<and> (\<exists>c. init \<lparr>arg_path = ''/a'', arg_drive = ''V'', arg_verbose = True, arg_reboot = True,
                arg_port = Some ''COM4'', arg_main = ''main.py''\<rparr> fresh_world
            = (Inr c, print_if_verbose c ''Watching files'' fresh_world))
   \<and> (\<exists>c. init \<lparr>arg_path = ''/a'', arg_drive = ''V'', arg_verbose = True, arg_reboot = False,
                arg_port = None, arg_main = ''main.py''\<rparr> fresh_world
            = (Inr c, print_if_verbose c ''Watching files'' fresh_world))"
  using
    C8_init_raises_iff_reboot_without_port
      [of "\<lparr>arg_path = ''/a'', arg_drive = ''V'', arg_verbose = True, arg_reboot = True,
             arg_port = None, arg_main = ''main.py''\<rparr>" fresh_world]
    C8_init_raises_iff_reboot_without_port
      [of "\<lparr>arg_path = ''/a'', arg_drive = ''V'', arg_verbose = True, arg_reboot = True,
             arg_port = Some ''COM4'', arg_main = ''main.py''\<rparr>" fresh_world]
    C8_init_raises_iff_reboot_without_port
      [of "\<lparr>arg_path = ''/a'', arg_drive = ''V'', arg_verbose = True, arg_reboot = False,
             arg_port = None, arg_main = ''main.py''\<rparr>" fresh_world]
  by auto

section \<open>Counting in traces\<close>

lemma copy_attempts_append [simp]:
  "copy_attempts (xs @ ys) = copy_attempts xs + copy_attempts ys"
  by (simp add: copy_attempts_def)

lemma copies_done_append [simp]:
  "copies_done (xs @ ys) = copies_done xs + copies_done ys"
  by (simp add: copies_done_def)

lemma backoffs_append [simp]: "backoffs (xs @ ys) = backoffs xs + backoffs ys"
  unfolding backoffs_def by (induction xs) simp_all

lemma count_list_snoc:
  "count_list (xs @ ys) e = count_list xs e + count_list ys e"
  by (induction xs) simp_all

lemma quiet_counts:
  "list_all quiet evs \<Longrightarrow>
     copy_attempts evs = 0 \<and> copies_done evs = 0 \<and> backoffs evs = 0"
proof (induction evs)
  case Nil
  show ?case by (simp add: copy_attempts_def copies_done_def backoffs_def)
next
  case (Cons e evs)
  then have q: "quiet e" and rest: "list_all quiet evs" by simp_all
  from q have "\<not> is_copy e \<and> \<not> is_copy_done e \<and> e \<noteq> Did (Sleep 1000)"
    by (cases e rule: is_copy.cases) (auto simp: quiet_def)
  with Cons.IH [OF rest] show ?case
    by (simp add: copy_attempts_def copies_done_def backoffs_def)
qed

lemma counts_Nil [simp]: "copy_attempts [] = 0" "copies_done [] = 0" "backoffs [] = 0"
  by (simp_all add: copy_attempts_def copies_done_def backoffs_def)

lemma counts_Cons [simp]:
  "copy_attempts (e # es) = (if is_copy e then Suc (copy_attempts es) else copy_attempts es)"
  "copies_done (e # es) = (if is_copy_done e then Suc (copies_done es) else copies_done es)"
  "backoffs (e # es) = (if e = Did (Sleep 1000) then Suc (backoffs es) else backoffs es)"
  by (simp_all add: copy_attempts_def copies_done_def backoffs_def)

lemma counts_print [simp]:
  "copy_attempts (if b then [Did (Print s)] else []) = 0"
  "copies_done (if b then [Did (Print s)] else []) = 0"
  "backoffs (if b then [Did (Print s)] else []) = 0"
  by simp_all

section \<open>One attempt\<close>

lemma io_then_cases:
  assumes "io_then m k w = (r, w2)"
  obtains (raised) e where "m w = (Inl e, w2)" and "r = Inl e"
        | (went_on) w1 where "m w = (Inr (), w1)" and "k w1 = (r, w2)"
  using assms by (auto simp: io_then_def io_bind_def split: prod.splits sum.splits)

lemma upload_body_unmapped:
  "get_drive_path c src = Inl e \<Longrightarrow> upload_body c src w = (Inl e, w)"
  by (simp add: upload_body_def io_bind_def io_of_def)

lemma upload_body_mapped:
  "get_drive_path c src = Inr d \<Longrightarrow>
   upload_body c src w =
     io_then (if str_in (main_file c) src
              then io_then (io_do (print_if_verbose c (''Removing '' @ main_file c)))
                           (os_remove d)
              else io_return ())
    (io_then (shutil_copyfile src d)
             (if reboot c then reboot_board c else io_return ())) w"
  by (simp add: upload_body_def io_bind_def io_of_def)

lemma get_drive_path_result:
  "(\<exists>d. get_drive_path c src = Inr d) \<or> get_drive_path c src = Inl IndexError"
  by (simp add: get_drive_path_def Let_def split: list.splits)

lemma os_remove_counts:
  assumes "os_remove p w = (r, w1)"
  shows "copy_attempts (trace w1) = copy_attempts (trace w)
       \<and> copies_done (trace w1) = copies_done (trace w)
       \<and> backoffs (trace w1) = backoffs (trace w)
       \<and> (r = Inr () \<or> r = Inl OSError)"
  using os_remove_cases [OF assms] by auto

lemma shutil_copyfile_counts:
  assumes "shutil_copyfile s d w = (r, w1)"
  shows "copy_attempts (trace w1) = copy_attempts (trace w) + 1
       \<and> backoffs (trace w1) = backoffs (trace w)
       \<and> (r = Inr () \<or> r = Inl OSError)"
  using assms
  by (auto simp: shutil_copyfile_def Let_def split: if_splits option.splits)

lemma reboot_board_counts:
  assumes "reboot_board c w = (r, w1)"
  shows "copy_attempts (trace w1) = copy_attempts (trace w)
       \<and> copies_done (trace w1) = copies_done (trace w)
       \<and> backoffs (trace w1) = backoffs (trace w)
       \<and> (r = Inr () \<or> r = Inl OSError)"
proof -
  from reboot_board_frame [OF assms] obtain evs
    where "trace w1 = trace w @ evs" and "list_all quiet evs"
      and "r = Inr () \<or> r = Inl OSError"
    by blast
  then show ?thesis using quiet_counts [of evs] by simp
qed

lemma remove_step_counts:
  assumes "(if str_in (main_file c) src
            then io_then (io_do (print_if_verbose c m)) (os_remove d)
            else io_return ()) w = (r, w1)"
  shows "copy_attempts (trace w1) = copy_attempts (trace w)
       \<and> backoffs (trace w1) = backoffs (trace w)
       \<and> (r = Inr () \<or> r = Inl OSError)"
proof (cases "str_in (main_file c) src")
  case True
  with assms have "os_remove d (print_if_verbose c m w) = (r, w1)"
    by (simp add: io_then_def io_bind_def io_do_def)
  from os_remove_counts [OF this] show ?thesis by simp
next
  case False
  with assms show ?thesis by (simp add: io_return_def)
qed

lemma reboot_step_counts:
  assumes "(if reboot c then reboot_board c else io_return ()) w = (r, w1)"
  shows "copy_attempts (trace w1) = copy_attempts (trace w)
       \<and> backoffs (trace w1) = backoffs (trace w)
       \<and> (r = Inr () \<or> r = Inl OSError)"
proof (cases "reboot c")
  case True
  with assms have "reboot_board c w = (r, w1)" by simp
  from reboot_board_counts [OF this] show ?thesis by simp
next
  case False
  with assms show ?thesis by (simp add: io_return_def)
qed

lemma upload_body_bounds:
  assumes "upload_body c src w = (r, w1)"
  shows "copy_attempts (trace w1) \<le> copy_attempts (trace w) + 1
       \<and> backoffs (trace w1) = backoffs (trace w)
       \<and> (r = Inr () \<or> r = Inl OSError
            \<or> (r = Inl IndexError \<and> get_drive_path c src = Inl IndexError))"
proof (cases "get_drive_path c src")
  case (Inl e)
  with get_drive_path_result [of c src] have "e = IndexError" by simp
  with Inl assms show ?thesis by (simp add: upload_body_unmapped)
next
  case (Inr d)
  from assms [unfolded upload_body_mapped [OF Inr]] show ?thesis
  proof (cases rule: io_then_cases)
    case (raised e)
    from remove_step_counts [OF raised(1)] raised(2) show ?thesis by simp
  next
    case (went_on wa)
    note a = remove_step_counts [OF went_on(1)]
    from went_on(2) show ?thesis
    proof (cases rule: io_then_cases)
      case (raised e)
      from shutil_copyfile_counts [OF raised(1)] raised(2) a show ?thesis by simp
    next
      case (went_on wb)
      from shutil_copyfile_counts [OF went_on(1)] reboot_step_counts [OF went_on(2)] a
      show ?thesis by auto
    qed
  qed
qed

section \<open>The retry recursion\<close>

lemma upload_file_bounds:
  "copy_attempts (trace (snd (upload_file c src n w))) \<le> copy_attempts (trace w) + nat n + 1
   \<and> backoffs (trace (snd (upload_file c src n w))) \<le> backoffs (trace w) + nat n
   \<and> fst (upload_file c src n w) \<noteq> Inl OSError
   \<and> (fst (upload_file c src n w) = Inr ()
        \<or> (fst (upload_file c src n w) = Inl IndexError
            \<and> get_drive_path c src = Inl IndexError))"
proof (induction c src n w rule: upload_file.induct)
  case (1 c src n w)
  obtain r w1 where b: "upload_body c src w = (r, w1)" by fastforce
  note bb = upload_body_bounds [OF b]
  show ?case
  proof (cases "r = Inl OSError")
    case False
    with bb have "r = Inr () \<or> (r = Inl IndexError \<and> get_drive_path c src = Inl IndexError)"
      by blast
    then show ?thesis
    proof
      assume "r = Inr ()"
      with b bb show ?thesis by (simp add: upload_file_done)
    next
      assume "r = Inl IndexError \<and> get_drive_path c src = Inl IndexError"
      with b bb show ?thesis by (simp add: upload_file_raise)
    qed
  next
    case True
    show ?thesis
    proof (cases "0 < n")
      case False
      with True b bb show ?thesis by (simp add: upload_file_giveup)
    next
      case pos: True
      let ?w2 = "time_sleep 1000 (print_if_verbose c retry_msg w1)"
      have step: "upload_file c src n w = upload_file c src (n - 1) ?w2"
        using b True pos by (simp add: upload_file_retry)
      have ih: "copy_attempts (trace (snd (upload_file c src (n - 1) ?w2)))
                  \<le> copy_attempts (trace ?w2) + nat (n - 1) + 1
              \<and> backoffs (trace (snd (upload_file c src (n - 1) ?w2)))
                  \<le> backoffs (trace ?w2) + nat (n - 1)
              \<and> fst (upload_file c src (n - 1) ?w2) \<noteq> Inl OSError
              \<and> (fst (upload_file c src (n - 1) ?w2) = Inr ()
                   \<or> (fst (upload_file c src (n - 1) ?w2) = Inl IndexError
                       \<and> get_drive_path c src = Inl IndexError))"
        using "1.IH" [OF b [symmetric] True refl pos] .
      have c2: "copy_attempts (trace ?w2) = copy_attempts (trace w1)"
        and b2: "backoffs (trace ?w2) = backoffs (trace w1) + 1"
        by simp_all
      have n1: "nat (n - 1) + 1 = nat n" using pos by simp
      from ih bb c2 b2 n1 show ?thesis unfolding step by simp
    qed
  qed
qed


section \<open>Attempts that fail at the copy\<close>

lemma copy_fail_attempt:
  assumes "\<not> str_in (main_file c) src" and "get_drive_path c src = Inr d"
    and "hd_fault (copy_faults w)"
  shows "upload_body c src w =
           (Inl OSError,
            emit (Failed (Copyfile src d)) (w\<lparr>copy_faults := tl (copy_faults w)\<rparr>))"
  using assms
  by (simp add: upload_body_mapped io_then_def io_bind_def io_return_def
        shutil_copyfile_def Let_def)

lemma copy_ok_attempt:
  assumes "\<not> str_in (main_file c) src" and "get_drive_path c src = Inr d"
    and "\<not> hd_fault (copy_faults w)" and "files w src = Some data"
    and "reboot c \<longrightarrow> (\<exists>p. port c = Some p) \<and> no_fault 3 (serial_faults w)"
  shows "\<exists>w1. upload_body c src w = (Inr (), w1)
           \<and> copies_done (trace w1) = copies_done (trace w) + 1
           \<and> copy_attempts (trace w1) = copy_attempts (trace w) + 1
           \<and> backoffs (trace w1) = backoffs (trace w)
           \<and> files w1 d = Some data"
proof -
  let ?w1 = "emit (Did (Copyfile src d))
               (w\<lparr>copy_faults := tl (copy_faults w), files := (files w)(d \<mapsto> data)\<rparr>)"
  have body: "upload_body c src w = (if reboot c then reboot_board c else io_return ()) ?w1"
    using assms(1-4)
    by (simp add: upload_body_mapped io_then_def io_bind_def io_return_def
          shutil_copyfile_def Let_def)
  show ?thesis
  proof (cases "reboot c")
    case False
    with body show ?thesis by (simp add: io_return_def)
  next
    case True
    with assms(5) obtain p where p: "port c = Some p"
      and nf: "no_fault 3 (serial_faults ?w1)" by auto
    obtain r w2 where rb: "reboot_board c ?w1 = (r, w2)" by fastforce
    from reboot_board_ok [OF p nf] rb have "r = Inr ()" by simp
    with rb body True reboot_board_counts [OF rb] reboot_board_frame [OF rb]
    show ?thesis by simp
  qed
qed

lemma upload_file_transient:
  assumes "\<not> str_in (main_file c) src" and "get_drive_path c src = Inr d"
    and "files w src = Some data"
    and "copy_faults w = replicate k True @ rest" and "\<not> hd_fault rest"
    and "reboot c \<longrightarrow> (\<exists>p. port c = Some p) \<and> no_fault 3 (serial_faults w)"
    and "int k \<le> n"
  shows "\<exists>w'. upload_file c src n w = (Inr (), w')
           \<and> backoffs (trace w') = backoffs (trace w) + k
           \<and> copies_done (trace w') = copies_done (trace w) + 1
           \<and> copy_attempts (trace w') = copy_attempts (trace w) + k + 1
           \<and> files w' d = Some data"
  using assms(3-7)
proof (induction k arbitrary: n w)
  case 0
  then have "\<not> hd_fault (copy_faults w)" by simp
  from copy_ok_attempt [OF assms(1,2) this "0.prems"(1) "0.prems"(4)]
  obtain w1 where "upload_body c src w = (Inr (), w1)"
    and "copies_done (trace w1) = copies_done (trace w) + 1"
    and "copy_attempts (trace w1) = copy_attempts (trace w) + 1"
    and "backoffs (trace w1) = backoffs (trace w)"
    and "files w1 d = Some data"
    by blast
  then show ?case by (simp add: upload_file_done)
next
  case (Suc k)
  let ?w1 = "emit (Failed (Copyfile src d)) (w\<lparr>copy_faults := tl (copy_faults w)\<rparr>)"
  let ?w2 = "time_sleep 1000 (print_if_verbose c retry_msg ?w1)"
  from Suc.prems(2) have hf: "hd_fault (copy_faults w)" by (simp add: hd_fault_def)
  have body: "upload_body c src w = (Inl OSError, ?w1)"
    by (rule copy_fail_attempt [OF assms(1,2) hf])
  from Suc.prems(5) have pos: "0 < n" and le: "int k \<le> n - 1" by simp_all
  have step: "upload_file c src n w = upload_file c src (n - 1) ?w2"
    by (rule upload_file_retry [OF body pos])
  have "\<exists>w'. upload_file c src (n - 1) ?w2 = (Inr (), w')
           \<and> backoffs (trace w') = backoffs (trace ?w2) + k
           \<and> copies_done (trace w') = copies_done (trace ?w2) + 1
           \<and> copy_attempts (trace w') = copy_attempts (trace ?w2) + k + 1
           \<and> files w' d = Some data"
  proof (rule Suc.IH)
    show "files ?w2 src = Some data" using Suc.prems(1) by simp
    show "copy_faults ?w2 = replicate k True @ rest" using Suc.prems(2) by simp
    show "\<not> hd_fault rest" by (rule Suc.prems(3))
    show "reboot c \<longrightarrow> (\<exists>p. port c = Some p) \<and> no_fault 3 (serial_faults ?w2)"
      using Suc.prems(4) by simp
    show "int k \<le> n - 1" by (rule le)
  qed
  then obtain w' where r: "upload_file c src (n - 1) ?w2 = (Inr (), w')"
    and "backoffs (trace w') = backoffs (trace ?w2) + k"
    and "copies_done (trace w') = copies_done (trace ?w2) + 1"
    and "copy_attempts (trace w') = copy_attempts (trace ?w2) + k + 1"
    and "files w' d = Some data"
    by blast
  then show ?case unfolding step by simp
qed

lemma on_modified_eq:
  "on_modified c src w =
     (case get_drive_path c src of
        Inl e \<Rightarrow> (Inl e, w)
      | Inr d \<Rightarrow> upload_file c src 4 (print_if_verbose c (''Modifying file at '' @ d) w))"
  by (simp add: on_modified_def io_defs split: sum.splits)

lemma on_created_eq:
  "on_created c src w =
     (case get_drive_path c src of
        Inl e \<Rightarrow> (Inl e, w)
      | Inr d \<Rightarrow> upload_file c src 4 (print_if_verbose c (''Creating file at '' @ d) w))"
  by (simp add: on_created_def io_defs split: sum.splits)

lemma on_deleted_eq:
  "on_deleted c src w =
     (case get_drive_path c src of
        Inl e \<Rightarrow> (Inl e, w)
      | Inr d \<Rightarrow> delete_file c src 4 (print_if_verbose c (''Deleting file at '' @ d) w))"
  by (simp add: on_deleted_def io_defs split: sum.splits)

text \<open>
  Claim C5: \<open>upload_file\<close> is a total function (the recursion is on the retry budget,
  which decreases), and an upload with budget \<open>n \<ge> 0\<close> calls \<open>copyfile\<close> at most
  \<open>n + 1\<close> times; with the handlers' budget of 4 that is at most 5 calls. When the copy
  fails on its first two calls and succeeds on the third, nothing else failing (the path
  does not contain the main-file name, the source exists, the reboot goes through) and
  the budget being at least 2, the upload returns after exactly two one-second waits and
  exactly one successful copy (in three copy calls).
\<close>

theorem C5_upload_attempts_bounded:
  "(0 \<le> n \<longrightarrow>
      copy_attempts (trace (snd (upload_file c src n w))) \<le> copy_attempts (trace w) + nat n + 1)
   \<and> copy_attempts (trace (snd (upload_file c src 4 w))) \<le> copy_attempts (trace w) + 5
   \<and> copy_attempts (trace (snd (on_modified c src w))) \<le> copy_attempts (trace w) + 5
   \<and> copy_attempts (trace (snd (on_created c src w))) \<le> copy_attempts (trace w) + 5
   \<and> (\<not> str_in (main_file c) src \<and> get_drive_path c src = Inr d \<and> files w src = Some data
        \<and> copy_faults w = True # True # rest \<and> \<not> hd_fault rest
        \<and> (reboot c \<longrightarrow> (\<exists>p. port c = Some p) \<and> no_fault 3 (serial_faults w))
        \<and> 2 \<le> n \<longrightarrow>
      (\<exists>w'. upload_file c src n w = (Inr (), w')
           \<and> backoffs (trace w') = backoffs (trace w) + 2
           \<and> copies_done (trace w') = copies_done (trace w) + 1
           \<and> copy_attempts (trace w') = copy_attempts (trace w) + 3))"
proof -
  have bound: "copy_attempts (trace (snd (upload_file c src m v)))
                 \<le> copy_attempts (trace v) + nat m + 1" for m v
    using upload_file_bounds [of c src m v] by blast
  have five: "copy_attempts (trace (snd (upload_file c src 4 v))) \<le> copy_attempts (trace v) + 5"
    for v using bound [of 4 v] by simp
  have modified: "copy_attempts (trace (snd (on_modified c src w))) \<le> copy_attempts (trace w) + 5"
  proof (cases "get_drive_path c src")
    case (Inl e)
    then show ?thesis by (simp add: on_modified_eq)
  next
    case (Inr p)
    with five [of "print_if_verbose c (''Modifying file at '' @ p) w"]
    show ?thesis by (simp add: on_modified_eq)
  qed
  have created: "copy_attempts (trace (snd (on_created c src w))) \<le> copy_attempts (trace w) + 5"
  proof (cases "get_drive_path c src")
    case (Inl e)
    then show ?thesis by (simp add: on_created_eq)
  next
    case (Inr p)
    with five [of "print_if_verbose c (''Creating file at '' @ p) w"]
    show ?thesis by (simp add: on_created_eq)
  qed
  have twice: "\<exists>w'. upload_file c src n w = (Inr (), w')
           \<and> backoffs (trace w') = backoffs (trace w) + 2
           \<and> copies_done (trace w') = copies_done (trace w) + 1
           \<and> copy_attempts (trace w') = copy_attempts (trace w) + 3"
    if h: "\<not> str_in (main_file c) src" "get_drive_path c src = Inr d" "files w src = Some data"
      "copy_faults w = True # True # rest" "\<not> hd_fault rest"
      "reboot c \<longrightarrow> (\<exists>p. port c = Some p) \<and> no_fault 3 (serial_faults w)" "2 \<le> n"
  proof -
    have "copy_faults w = replicate 2 True @ rest" using h(4) by (simp add: numeral_2_eq_2)
    moreover have "int 2 \<le> n" using h(7) by simp
    ultimately show ?thesis
      using upload_file_transient [OF h(1,2,3) _ h(5,6), of 2 n] by auto
  qed
  from bound five modified created twice show ?thesis by blast
qed

theorem C5_upload_attempts_bounded_witness:
  "(0::int) \<le> 4
   \<and> \<not> str_in (main_file plain_session) ''/a/x.txt''
   \<and> get_drive_path plain_session ''/a/x.txt'' = Inr ''V:x.txt''
   \<and> copy_attempts (trace (snd (upload_file plain_session ''/a/x.txt'' 4
          (fresh_world\<lparr>copy_faults := [True, True]\<rparr>)))) \<le> 5
   \<and> (\<exists>w'. upload_file plain_session ''/a/x.txt'' 4 (fresh_world\<lparr>copy_faults := [True, True]\<rparr>)
             = (Inr (), w')
           \<and> backoffs (trace w') = 2 \<and> copies_done (trace w') = 1
           \<and> copy_attempts (trace w') = 3)"
proof -
  let ?w = "fresh_world\<lparr>copy_faults := [True, True]\<rparr>"
  have h1: "\<not> str_in (main_file plain_session) ''/a/x.txt''"
    by (simp add: plain_session_def)
  have h2: "get_drive_path plain_session ''/a/x.txt'' = Inr ''V:x.txt''"
    by (simp add: plain_session_def get_drive_path_def str_replace_def)
  have h3: "files ?w ''/a/x.txt'' = Some ''x''" by (simp add: fresh_world_def)
  have h4: "copy_faults ?w = True # True # []" by simp
  have h5: "\<not> hd_fault []" by (simp add: hd_fault_def)
  have h6: "reboot plain_session \<longrightarrow>
              (\<exists>p. port plain_session = Some p) \<and> no_fault 3 (serial_faults ?w)"
    by (simp add: plain_session_def)
  have h7: "trace ?w = []" by (simp add: fresh_world_def)
  from C5_upload_attempts_bounded
         [of 4 plain_session "''/a/x.txt''" ?w "''V:x.txt''" "''x''" "[]"]
       h1 h2 h3 h4 h5 h6
  have "copy_attempts (trace (snd (upload_file plain_session ''/a/x.txt'' 4 ?w)))
          \<le> copy_attempts (trace ?w) + 5
        \<and> (\<exists>w'. upload_file plain_session ''/a/x.txt'' 4 ?w = (Inr (), w')
           \<and> backoffs (trace w') = backoffs (trace ?w) + 2
           \<and> copies_done (trace w') = copies_done (trace ?w) + 1
           \<and> copy_attempts (trace w') = copy_attempts (trace ?w) + 3)"
    by simp
  with h1 h2 show ?thesis unfolding h7 by (auto simp: numeral_2_eq_2)
qed


section \<open>The main file on a drive that does not have it\<close>

lemma upload_body_absent:
  assumes "str_in (main_file c) src" and "get_drive_path c src = Inr d"
    and "files w d = None"
  shows "upload_body c src w =
           (Inl OSError,
            emit (Failed (Remove d))
              ((print_if_verbose c (''Removing '' @ main_file c) w)
                 \<lparr>remove_faults := tl (remove_faults w)\<rparr>))"
  using assms
  by (simp add: upload_body_mapped io_then_def io_bind_def io_do_def os_remove_absent
           del: append.simps)

lemma upload_file_absent:
  assumes "str_in (main_file c) src" and "get_drive_path c src = Inr d"
    and "files w d = None"
  shows "\<exists>w1. upload_file c src n w = (Inr (), print_if_verbose c giveup_msg w1)
           \<and> files w1 = files w
           \<and> copy_attempts (trace w1) = copy_attempts (trace w)
           \<and> count_list (trace w1) (Failed (Remove d))
               = count_list (trace w) (Failed (Remove d)) + nat n + 1
           \<and> backoffs (trace w1) = backoffs (trace w) + nat n"
  using assms(3)
proof (induction c\<equiv>c src\<equiv>src n w rule: upload_file.induct)
  case (1 n w)
  let ?w1 = "emit (Failed (Remove d))
               ((print_if_verbose c (''Removing '' @ main_file c) w)
                  \<lparr>remove_faults := tl (remove_faults w)\<rparr>)"
  let ?w2 = "time_sleep 1000 (print_if_verbose c retry_msg ?w1)"
  have body: "upload_body c src w = (Inl OSError, ?w1)"
    by (rule upload_body_absent [OF assms(1,2) "1.prems"])
  have once: "count_list (trace ?w1) (Failed (Remove d))
                = count_list (trace w) (Failed (Remove d)) + 1"
    by (simp add: count_list_snoc del: append.simps)
  show ?case
  proof (cases "0 < n")
    case False
    then have "upload_file c src n w = (Inr (), print_if_verbose c giveup_msg ?w1)"
      by (rule upload_file_giveup [OF body])
    moreover have "nat n = 0" using False by simp
    ultimately show ?thesis using once by (intro exI [of _ ?w1]) (simp del: append.simps)
  next
    case True
    have step: "upload_file c src n w = upload_file c src (n - 1) ?w2"
      by (rule upload_file_retry [OF body True])
    have "files ?w2 d = None" using "1.prems" by simp
    from "1.hyps" [OF body [symmetric] refl refl True this]
    obtain w3 where r: "upload_file c src (n - 1) ?w2 = (Inr (), print_if_verbose c giveup_msg w3)"
      and f: "files w3 = files ?w2"
      and ca: "copy_attempts (trace w3) = copy_attempts (trace ?w2)"
      and rm: "count_list (trace w3) (Failed (Remove d))
                = count_list (trace ?w2) (Failed (Remove d)) + nat (n - 1) + 1"
      and bo: "backoffs (trace w3) = backoffs (trace ?w2) + nat (n - 1)"
      by blast
    have n1: "nat (n - 1) + 1 = nat n" using True by simp
    have rm2: "count_list (trace ?w2) (Failed (Remove d))
                 = count_list (trace w) (Failed (Remove d)) + 1"
      by (simp add: count_list_snoc del: append.simps)
    have "files w3 = files w" using f by simp
    moreover have "copy_attempts (trace w3) = copy_attempts (trace w)" using ca by simp
    moreover have "count_list (trace w3) (Failed (Remove d))
                     = count_list (trace w) (Failed (Remove d)) + nat n + 1"
      using rm rm2 n1 by simp
    moreover have "backoffs (trace w3) = backoffs (trace w) + nat n"
      using bo n1 by simp
    ultimately show ?thesis unfolding step using r by blast
  qed
qed

text \<open>
  Claim C10: when the source path contains the main-file name and the drive has no file
  at the destination, every attempt fails at \<open>os.remove\<close>: \<open>copyfile\<close> is never called, the
  files are unchanged, the removal is tried budget + 1 times with a one-second wait between
  two tries, and the call ends with the give-up message.
\<close>


theorem C10_first_sync_of_main_never_copies:
  assumes "str_in (main_file c) src" and "get_drive_path c src = Inr d"
    and "files w d = None"
  shows "\<exists>w'. upload_file c src n w = (Inr (), w')
           \<and> files w' = files w
           \<and> copy_attempts (trace w') = copy_attempts (trace w)
           \<and> count_list (trace w') (Failed (Remove d))
               = count_list (trace w) (Failed (Remove d)) + nat n + 1
           \<and> backoffs (trace w') = backoffs (trace w) + nat n
           \<and> (\<exists>w1. w' = print_if_verbose c giveup_msg w1)"
proof -
  from upload_file_absent [OF assms, of n]
  obtain w1 where "upload_file c src n w = (Inr (), print_if_verbose c giveup_msg w1)"
    and "files w1 = files w"
    and "copy_attempts (trace w1) = copy_attempts (trace w)"
    and "count_list (trace w1) (Failed (Remove d))
           = count_list (trace w) (Failed (Remove d)) + nat n + 1"
    and "backoffs (trace w1) = backoffs (trace w) + nat n"
    by blast
  then show ?thesis
    by (intro exI [of _ "print_if_verbose c giveup_msg w1"])
       (auto simp: count_list_snoc)
qed

lemma example_paths:
  "get_drive_path plain_session ''/a/main.py'' = Inr ''V:main.py''"
  "get_drive_path plain_session ''/a/x.txt'' = Inr ''V:x.txt''"
  "get_drive_path plain_session ''/a/gone.txt'' = Inr ''V:gone.txt''"
  "get_drive_path board_session ''/a/gone.txt'' = Inr ''V:gone.txt''"
  "str_in (main_file plain_session) ''/a/main.py''"
  by (simp_all add: plain_session_def board_session_def get_drive_path_def str_replace_def)

theorem C10_first_sync_of_main_never_copies_witness:
  "str_in (main_file plain_session) ''/a/main.py''
   \<and> get_drive_path plain_session ''/a/main.py'' = Inr ''V:main.py''
   \<and> files fresh_world ''V:main.py'' = None
   \<and> (\<exists>w'. upload_file plain_session ''/a/main.py'' 4 fresh_world = (Inr (), w')
           \<and> files w' = files fresh_world
           \<and> copy_attempts (trace w') = 0
           \<and> count_list (trace w') (Failed (Remove ''V:main.py'')) = 5
           \<and> backoffs (trace w') = 4)"
proof -
  have absent: "files fresh_world ''V:main.py'' = None" by (simp add: fresh_world_def)
  have empty: "trace fresh_world = []" by (simp add: fresh_world_def)
  from C10_first_sync_of_main_never_copies
         [OF example_paths(5) example_paths(1) absent, of 4]
  show ?thesis using example_paths(5) example_paths(1) absent unfolding empty by auto
qed

section \<open>Evaluation on given worlds\<close>

lemmas run_defs = upload_file.simps upload_body_def delete_file_def delete_body_def
  get_drive_path_def str_replace_def io_defs os_remove_def shutil_copyfile_def
  hd_fault_def emit_def print_if_verbose_def time_sleep_def Let_def

text \<open>
  Claim C1, evaluated on the code. The source \<open>/a/main.py\<close> contains the main-file name
  \<open>main.py\<close> and the drive has no \<open>V:main.py\<close> yet. The removal is the first call, as
  the claim says, but the missing file is not tolerated: each of the five attempts stops
  at the removal, \<open>copyfile\<close> is never called, the call gives up and \<open>V:main.py\<close> is
  still not on the drive. The claim has the upload go on to the copy, as the docstring of
  \<open>upload_file\<close> ("Upload or overwrite a file on the pyboard") has it, and as the same
  call does for \<open>/a/x.txt\<close>, which does not contain the main-file name: that file is
  copied to the drive at the first attempt.
\<close>

theorem C1_first_upload_of_main_never_copies:
  "str_in (main_file plain_session) ''/a/main.py''
   \<and> files fresh_world ''V:main.py'' = None
   \<and> upload_file plain_session ''/a/main.py'' 4 fresh_world =
       (Inr (), fresh_world\<lparr>trace :=
          [Did (Print ''Removing main.py''), Failed (Remove ''V:main.py''),
           Did (Print retry_msg), Did (Sleep 1000),
           Did (Print ''Removing main.py''), Failed (Remove ''V:main.py''),
           Did (Print retry_msg), Did (Sleep 1000),
           Did (Print ''Removing main.py''), Failed (Remove ''V:main.py''),
           Did (Print retry_msg), Did (Sleep 1000),
           Did (Print ''Removing main.py''), Failed (Remove ''V:main.py''),
           Did (Print retry_msg), Did (Sleep 1000),
           Did (Print ''Removing main.py''), Failed (Remove ''V:main.py''),
           Did (Print giveup_msg)]\<rparr>)
   \<and> copy_attempts (trace (snd (upload_file plain_session ''/a/main.py'' 4 fresh_world))) = 0
   \<and> files (snd (upload_file plain_session ''/a/main.py'' 4 fresh_world)) ''V:main.py'' = None
   \<and> files fresh_world ''V:x.txt'' = None
   \<and> trace (snd (upload_file plain_session ''/a/x.txt'' 4 fresh_world)) =
        [Did (Copyfile ''/a/x.txt'' ''V:x.txt'')]
   \<and> files (snd (upload_file plain_session ''/a/x.txt'' 4 fresh_world)) ''V:x.txt'' = Some ''x''"
  by (simp add: run_defs plain_session_def fresh_world_def)

text \<open>
  Claim C2 fails on the code. Reboot is enabled, and neither the deleted source
  \<open>/a/gone.txt\<close> nor the destination \<open>V:gone.txt\<close> exists: the removal raises, the call
  waits and retries four times, prints the give-up message, and never opens the serial
  port.
\<close>

theorem C2_counterexample:
  "reboot board_session
   \<and> files fresh_world ''V:gone.txt'' = None
   \<and> delete_file board_session ''/a/gone.txt'' 4 fresh_world =
       (Inr (), fresh_world\<lparr>trace :=
          [Failed (Remove ''V:gone.txt''),
           Did (Print retry_msg), Did (Sleep 1000),
           Failed (Copyfile ''/a/gone.txt'' ''V:gone.txt''),
           Did (Print retry_msg), Did (Sleep 1000),
           Failed (Copyfile ''/a/gone.txt'' ''V:gone.txt''),
           Did (Print retry_msg), Did (Sleep 1000),
           Failed (Copyfile ''/a/gone.txt'' ''V:gone.txt''),
           Did (Print retry_msg), Did (Sleep 1000),
           Failed (Copyfile ''/a/gone.txt'' ''V:gone.txt''),
           Did (Print giveup_msg)]\<rparr>)
   \<and> filter is_serial (trace (snd (delete_file board_session ''/a/gone.txt'' 4 fresh_world))) = []"
  by (simp add: run_defs board_session_def fresh_world_def)


section \<open>The trace only grows\<close>

lemma shutil_copyfile_cases:
  "shutil_copyfile s d w = (r, w1) \<Longrightarrow>
     (r = Inl OSError \<and> trace w1 = trace w @ [Failed (Copyfile s d)])
   \<or> (r = Inr () \<and> trace w1 = trace w @ [Did (Copyfile s d)])"
  by (auto simp: shutil_copyfile_def Let_def split: if_splits option.splits)

lemma reboot_step_extends:
  assumes "(if reboot c then reboot_board c else io_return ()) w = (r, w1)"
  shows "prefix (trace w) (trace w1)"
proof (cases "reboot c")
  case True
  with assms have "reboot_board c w = (r, w1)" by simp
  from reboot_board_frame [OF this] show ?thesis by (auto simp: prefix_def)
next
  case False
  with assms show ?thesis by (simp add: io_return_def)
qed

lemma upload_body_extends:
  assumes "upload_body c src w = (r, w1)"
  shows "prefix (trace w) (trace w1)"
proof (cases "get_drive_path c src")
  case (Inl e)
  with assms show ?thesis by (simp add: upload_body_unmapped)
next
  case (Inr d)
  from assms [unfolded upload_body_mapped [OF Inr]] show ?thesis
  proof (cases rule: io_then_cases)
    case (raised e)
    then show ?thesis
      by (auto simp: io_then_def io_bind_def io_do_def io_return_def prefix_def
               split: if_splits dest!: os_remove_cases)
  next
    case (went_on wa)
    from went_on(1) have a: "prefix (trace w) (trace wa)"
      by (auto simp: io_then_def io_bind_def io_do_def io_return_def prefix_def
               split: if_splits dest!: os_remove_cases)
    from went_on(2) have "prefix (trace wa) (trace w1)"
    proof (cases rule: io_then_cases)
      case (raised e)
      then show ?thesis by (auto simp: prefix_def dest!: shutil_copyfile_cases)
    next
      case (went_on wb)
      from went_on(1) have "prefix (trace wa) (trace wb)"
        by (auto simp: prefix_def dest!: shutil_copyfile_cases)
      with reboot_step_extends [OF went_on(2)] show ?thesis
        by (blast intro: prefix_order.trans)
    qed
    with a show ?thesis by (blast intro: prefix_order.trans)
  qed
qed

lemma upload_file_extends: "prefix (trace w) (trace (snd (upload_file c src n w)))"
proof (induction c src n w rule: upload_file.induct)
  case (1 c src n w)
  obtain r w1 where b: "upload_body c src w = (r, w1)" by fastforce
  note ext = upload_body_extends [OF b]
  note bb = upload_body_bounds [OF b]
  show ?case
  proof (cases "r = Inl OSError")
    case False
    with bb have "r = Inr () \<or> r = Inl IndexError" by blast
    with b ext show ?thesis by (auto simp: upload_file_done upload_file_raise)
  next
    case True
    show ?thesis
    proof (cases "0 < n")
      case False
      with True b ext show ?thesis by (auto simp: upload_file_giveup prefix_def)
    next
      case pos: True
      let ?w2 = "time_sleep 1000 (print_if_verbose c retry_msg w1)"
      have step: "upload_file c src n w = upload_file c src (n - 1) ?w2"
        using b True pos by (simp add: upload_file_retry)
      have "prefix (trace w) (trace ?w2)" using ext by (auto simp: prefix_def)
      with "1.IH" [OF b [symmetric] True refl pos] show ?thesis
        unfolding step by (blast intro: prefix_order.trans)
    qed
  qed
qed

lemma upload_file_returns:
  "get_drive_path c src = Inr d \<Longrightarrow> fst (upload_file c src n w) = Inr ()"
  using upload_file_bounds [of c src n w] by auto

section \<open>Removal before the copy, and removal of a file that is not there\<close>

text \<open>
  The order of the calls in one attempt: when the source path contains the main-file name,
  an attempt first calls \<open>os.remove\<close> on the destination, and \<open>copyfile\<close> is the next call only if that
  removal succeeded. A destination that does not exist makes the removal fail. A failed
  removal ends the attempt there (no copy, files unchanged) and counts as a failed
  attempt: with budget left the upload waits a second and tries again with the budget
  decremented, without budget it prints the give-up message and returns.
\<close>

lemma removal_precedes_copy:
  assumes "str_in (main_file c) src" and "get_drive_path c src = Inr d"
    and "upload_body c src w = (r, w1)"
  shows "\<exists>ev rest.
           trace w1 = trace w
              @ (if verbose c then [Did (Print (''Removing '' @ main_file c))] else [])
              @ ev # rest
         \<and> call_of ev = Remove d
         \<and> (files w d = None \<longrightarrow> ev = Failed (Remove d))
         \<and> (ev = Failed (Remove d) \<longrightarrow>
              rest = [] \<and> r = Inl OSError \<and> files w1 = files w
              \<and> upload_file c src n w =
                  (if 0 < n
                   then upload_file c src (n - 1)
                          (time_sleep 1000 (print_if_verbose c retry_msg w1))
                   else (Inr (), print_if_verbose c giveup_msg w1)))
         \<and> (ev = Did (Remove d) \<longrightarrow>
              (\<exists>ev2 rest2. rest = ev2 # rest2 \<and> call_of ev2 = Copyfile src d))"
proof -
  let ?pr = "if verbose c then [Did (Print (''Removing '' @ main_file c))] else []"
  let ?w0 = "print_if_verbose c (''Removing '' @ main_file c) w"
  have t0: "trace ?w0 = trace w @ ?pr" by (simp del: append.simps)
  have f0: "files ?w0 = files w" by simp
  from assms(3) [unfolded upload_body_mapped [OF assms(2)]] show ?thesis
  proof (cases rule: io_then_cases)
    case (raised e)
    with assms(1) have rm: "os_remove d ?w0 = (Inl e, w1)"
      by (simp add: io_then_def io_bind_def io_do_def)
    from os_remove_cases [OF rm] have e: "e = OSError"
      and t1: "trace w1 = trace ?w0 @ [Failed (Remove d)]" and f1: "files w1 = files ?w0"
      by auto
    have body: "upload_body c src w = (Inl OSError, w1)"
      using assms(3) raised(2) e by simp
    have up: "upload_file c src n w =
                (if 0 < n
                 then upload_file c src (n - 1)
                        (time_sleep 1000 (print_if_verbose c retry_msg w1))
                 else (Inr (), print_if_verbose c giveup_msg w1))"
      using upload_file_retry [OF body, of n] upload_file_giveup [OF body, of n] by simp
    have "trace w1 = trace w @ ?pr @ Failed (Remove d) # []"
      using t1 t0 by (simp del: append.simps)
    with raised(2) e f1 f0 up show ?thesis
      by (intro exI [of _ "Failed (Remove d)"] exI [of _ "[]"]) simp
  next
    case (went_on wa)
    with assms(1) have rm: "os_remove d ?w0 = (Inr (), wa)"
      by (simp add: io_then_def io_bind_def io_do_def)
    from os_remove_cases [OF rm] have ta: "trace wa = trace ?w0 @ [Did (Remove d)]"
      and present: "files ?w0 d \<noteq> None"
      by auto
    have "\<exists>ev2 rest2. trace w1 = trace wa @ ev2 # rest2 \<and> call_of ev2 = Copyfile src d"
      using went_on(2)
    proof (cases rule: io_then_cases)
      case (raised e)
      from shutil_copyfile_cases [OF raised(1)] show ?thesis by auto
    next
      case (went_on wb)
      from shutil_copyfile_cases [OF went_on(1)]
      have tb: "trace wb = trace wa @ [Did (Copyfile src d)]" by auto
      from reboot_step_extends [OF went_on(2)] obtain evs where "trace w1 = trace wb @ evs"
        by (auto simp: prefix_def)
      with tb show ?thesis by auto
    qed
    then obtain ev2 rest2 where t1: "trace w1 = trace wa @ ev2 # rest2"
      and c2: "call_of ev2 = Copyfile src d" by blast
    have "trace w1 = trace w @ ?pr @ Did (Remove d) # ev2 # rest2"
      using t1 ta t0 by (simp del: append.simps)
    with c2 present f0 show ?thesis
      by (intro exI [of _ "Did (Remove d)"] exI [of _ "ev2 # rest2"]) simp
  qed
qed


lemma removal_precedes_copy_example:
  "str_in (main_file plain_session) ''/a/main.py''
   \<and> get_drive_path plain_session ''/a/main.py'' = Inr ''V:main.py''
   \<and> files fresh_world ''V:main.py'' = None
   \<and> upload_body plain_session ''/a/main.py'' fresh_world =
        (Inl OSError,
         fresh_world\<lparr>trace := [Did (Print ''Removing main.py''), Failed (Remove ''V:main.py'')]\<rparr>)
   \<and> upload_file plain_session ''/a/main.py'' 4 fresh_world =
        upload_file plain_session ''/a/main.py'' 3
          (time_sleep 1000 (print_if_verbose plain_session retry_msg
             (fresh_world\<lparr>trace :=
                [Did (Print ''Removing main.py''), Failed (Remove ''V:main.py'')]\<rparr>)))
   \<and> upload_body plain_session ''/a/main.py'' synced_world =
        (Inr (),
         synced_world\<lparr>files := [''/a/main.py'' \<mapsto> ''print(1)'', ''V:main.py'' \<mapsto> ''print(1)''],
           trace := [Did (Print ''Removing main.py''), Did (Remove ''V:main.py''),
                     Did (Copyfile ''/a/main.py'' ''V:main.py'')]\<rparr>)"
proof -
  let ?w1 = "fresh_world\<lparr>trace :=
               [Did (Print ''Removing main.py''), Failed (Remove ''V:main.py'')]\<rparr>"
  have absent: "files fresh_world ''V:main.py'' = None" by (simp add: fresh_world_def)
  have b1: "upload_body plain_session ''/a/main.py'' fresh_world = (Inl OSError, ?w1)"
    by (simp add: run_defs plain_session_def fresh_world_def)
  have b2: "upload_body plain_session ''/a/main.py'' synced_world =
        (Inr (),
         synced_world\<lparr>files := [''/a/main.py'' \<mapsto> ''print(1)'', ''V:main.py'' \<mapsto> ''print(1)''],
           trace := [Did (Print ''Removing main.py''), Did (Remove ''V:main.py''),
                     Did (Copyfile ''/a/main.py'' ''V:main.py'')]\<rparr>)"
    by (simp add: run_defs plain_session_def synced_world_def fun_upd_twist)
  from removal_precedes_copy
         [OF example_paths(5) example_paths(1) b1, of 4] absent
  have "upload_file plain_session ''/a/main.py'' 4 fresh_world =
          upload_file plain_session ''/a/main.py'' 3
            (time_sleep 1000 (print_if_verbose plain_session retry_msg ?w1))"
    by auto
  with example_paths(5) example_paths(1) absent b1 b2 show ?thesis by simp
qed

text \<open>
  Claim C2, amended: deleting a destination that does not exist is a failed attempt like
  any other. \<open>os.remove\<close> raises, so the attempt ends before the reboot: its only call is
  the failed removal. The call still returns normally; with budget left the failed
  removal is followed by the retry notice and a one-second wait, and without budget by
  the give-up message.
\<close>

theorem C2_delete_of_absent_fails_the_attempt:
  assumes "get_drive_path c src = Inr d" and "files w d = None"
  shows "delete_body c src w =
           (Inl OSError,
            emit (Failed (Remove d)) (w\<lparr>remove_faults := tl (remove_faults w)\<rparr>))
       \<and> (\<exists>w' rest.
             delete_file c src n w = (Inr (), w')
           \<and> trace w' = trace w @ Failed (Remove d) #
               (if 0 < n
                then (if verbose c then [Did (Print retry_msg)] else []) @ Did (Sleep 1000) # rest
                else (if verbose c then [Did (Print giveup_msg)] else [])))"
proof -
  let ?w1 = "emit (Failed (Remove d)) (w\<lparr>remove_faults := tl (remove_faults w)\<rparr>)"
  let ?w2 = "time_sleep 1000 (print_if_verbose c retry_msg ?w1)"
  have body: "delete_body c src w = (Inl OSError, ?w1)"
    using assms by (simp add: delete_body_def io_bind_def io_of_def io_then_def os_remove_absent)
  have "\<exists>w' rest.
             delete_file c src n w = (Inr (), w')
           \<and> trace w' = trace w @ Failed (Remove d) #
               (if 0 < n
                then (if verbose c then [Did (Print retry_msg)] else []) @ Did (Sleep 1000) # rest
                else (if verbose c then [Did (Print giveup_msg)] else []))"
  proof (cases "0 < n")
    case False
    then have "delete_file c src n w = (Inr (), print_if_verbose c giveup_msg ?w1)"
      by (simp add: delete_file_def body)
    with False show ?thesis by simp
  next
    case True
    then have step: "delete_file c src n w = upload_file c src (n - 1) ?w2"
      by (simp add: delete_file_def body)
    from upload_file_extends [of ?w2 c src "n - 1"] obtain rest
      where "trace (snd (upload_file c src (n - 1) ?w2)) = trace ?w2 @ rest"
      by (auto simp: prefix_def)
    moreover have "fst (upload_file c src (n - 1) ?w2) = Inr ()"
      by (rule upload_file_returns [OF assms(1)])
    ultimately have "delete_file c src n w = (Inr (), snd (upload_file c src (n - 1) ?w2))
      \<and> trace (snd (upload_file c src (n - 1) ?w2)) =
          trace w @ Failed (Remove d) #
            (if verbose c then [Did (Print retry_msg)] else []) @ Did (Sleep 1000) # rest"
      unfolding step by (simp add: prod_eq_iff)
    with True show ?thesis by auto
  qed
  with body show ?thesis by simp
qed

theorem C2_delete_of_absent_fails_the_attempt_witness:
  "get_drive_path board_session ''/a/gone.txt'' = Inr ''V:gone.txt''
   \<and> files fresh_world ''V:gone.txt'' = None
   \<and> delete_body board_session ''/a/gone.txt'' fresh_world =
        (Inl OSError, fresh_world\<lparr>trace := [Failed (Remove ''V:gone.txt'')]\<rparr>)
   \<and> (\<exists>w' rest. delete_file board_session ''/a/gone.txt'' 4 fresh_world = (Inr (), w')
          \<and> trace w' = Failed (Remove ''V:gone.txt'') # Did (Print retry_msg)
                         # Did (Sleep 1000) # rest)
   \<and> delete_file board_session ''/a/gone.txt'' 0 fresh_world =
        (Inr (), fresh_world\<lparr>trace := [Failed (Remove ''V:gone.txt''),
                                         Did (Print giveup_msg)]\<rparr>)"
proof -
  have absent: "files fresh_world ''V:gone.txt'' = None" by (simp add: fresh_world_def)
  have v: "verbose board_session" by (simp add: board_session_def)
  have e: "trace fresh_world = []" "remove_faults fresh_world = []"
    by (simp_all add: fresh_world_def)
  have w1: "emit (Failed (Remove ''V:gone.txt''))
              (fresh_world\<lparr>remove_faults := tl (remove_faults fresh_world)\<rparr>)
            = fresh_world\<lparr>trace := [Failed (Remove ''V:gone.txt'')]\<rparr>"
    by (simp add: emit_def fresh_world_def)
  from C2_delete_of_absent_fails_the_attempt [OF example_paths(4) absent, of 4]
  have four: "delete_body board_session ''/a/gone.txt'' fresh_world =
        (Inl OSError, fresh_world\<lparr>trace := [Failed (Remove ''V:gone.txt'')]\<rparr>)
     \<and> (\<exists>w' rest. delete_file board_session ''/a/gone.txt'' 4 fresh_world = (Inr (), w')
          \<and> trace w' = Failed (Remove ''V:gone.txt'') # Did (Print retry_msg)
                         # Did (Sleep 1000) # rest)"
    unfolding w1 using v e by simp
  have zero: "delete_file board_session ''/a/gone.txt'' 0 fresh_world =
        (Inr (), fresh_world\<lparr>trace := [Failed (Remove ''V:gone.txt''),
                                         Did (Print giveup_msg)]\<rparr>)"
    by (simp add: run_defs board_session_def fresh_world_def)
  from four zero example_paths(4) absent show ?thesis by simp
qed


section \<open>The retry of a failed delete\<close>

text \<open>
  Claim C3, evaluated on the code. \<open>/a/x.txt\<close> was deleted on the host, \<open>V:x.txt\<close> is on
  the drive, and the drive is busy at the first removal only. \<open>delete_file\<close> waits a second
  and then calls \<open>upload_file\<close> with budget 3: the removal is never tried again, the copy
  is tried four times and fails each time (there is no source), and \<open>V:x.txt\<close> stays on
  the drive. With the source still on the host, the retry copies it to the drive.
\<close>

theorem C3_delete_retries_by_uploading:
  "delete_file plain_session ''/a/x.txt'' 4 stale_world =
     (Inr (), stale_world\<lparr>remove_faults := [], trace :=
        [Failed (Remove ''V:x.txt''),
         Did (Print retry_msg), Did (Sleep 1000),
         Failed (Copyfile ''/a/x.txt'' ''V:x.txt''),
         Did (Print retry_msg), Did (Sleep 1000),
         Failed (Copyfile ''/a/x.txt'' ''V:x.txt''),
         Did (Print retry_msg), Did (Sleep 1000),
         Failed (Copyfile ''/a/x.txt'' ''V:x.txt''),
         Did (Print retry_msg), Did (Sleep 1000),
         Failed (Copyfile ''/a/x.txt'' ''V:x.txt''),
         Did (Print giveup_msg)]\<rparr>)
   \<and> files stale_world ''V:x.txt'' = Some ''x''
   \<and> delete_file plain_session ''/a/x.txt'' 4
        (stale_world\<lparr>files := [''V:x.txt'' \<mapsto> ''x'', ''/a/x.txt'' \<mapsto> ''y'']\<rparr>) =
     (Inr (), stale_world\<lparr>files := [''V:x.txt'' \<mapsto> ''y'', ''/a/x.txt'' \<mapsto> ''y''],
        remove_faults := [], trace :=
        [Failed (Remove ''V:x.txt''),
         Did (Print retry_msg), Did (Sleep 1000),
         Did (Copyfile ''/a/x.txt'' ''V:x.txt'')]\<rparr>)"
  by (simp add: run_defs plain_session_def stale_world_def fun_upd_twist)

section \<open>Failures stay inside the sync action\<close>

lemma upload_all_fail_giveup:
  "upload_all_fail c src n w \<Longrightarrow>
   \<exists>w1. upload_file c src n w = (Inr (), print_if_verbose c giveup_msg w1)"
proof (induction c src n w rule: upload_file.induct)
  case (1 c src n w)
  from "1.prems" obtain w1 where b: "upload_body c src w = (Inl OSError, w1)"
    and rest: "0 < n \<longrightarrow>
                 upload_all_fail c src (n - 1) (time_sleep 1000 (print_if_verbose c retry_msg w1))"
    by (auto simp: upload_all_fail.simps [of c src n w]
             split: prod.splits sum.splits exn.splits if_splits)
  show ?case
  proof (cases "0 < n")
    case False
    with b show ?thesis by (auto simp: upload_file_giveup)
  next
    case True
    with rest "1.IH" [OF b [symmetric] refl refl True] show ?thesis
      by (simp add: upload_file_retry [OF b True])
  qed
qed

lemma delete_all_fail_giveup:
  assumes "delete_all_fail c src n w"
  shows "\<exists>w1. delete_file c src n w = (Inr (), print_if_verbose c giveup_msg w1)"
proof -
  from assms obtain w1 where b: "delete_body c src w = (Inl OSError, w1)"
    and rest: "0 < n \<longrightarrow>
                 upload_all_fail c src (n - 1) (time_sleep 1000 (print_if_verbose c retry_msg w1))"
    by (auto simp: delete_all_fail_def split: prod.splits sum.splits exn.splits if_splits)
  show ?thesis
  proof (cases "0 < n")
    case False
    with b show ?thesis by (auto simp: delete_file_def)
  next
    case True
    with rest upload_all_fail_giveup show ?thesis by (simp add: delete_file_def b)
  qed
qed

lemma delete_body_result:
  assumes "delete_body c src w = (r, w1)"
  shows "r = Inr () \<or> r = Inl OSError
       \<or> (r = Inl IndexError \<and> get_drive_path c src = Inl IndexError)"
proof (cases "get_drive_path c src")
  case (Inl e)
  with get_drive_path_result [of c src] have "e = IndexError" by simp
  with Inl assms show ?thesis by (simp add: delete_body_def io_bind_def io_of_def)
next
  case (Inr d)
  with assms have "io_then (os_remove d) (if reboot c then reboot_board c else io_return ()) w
                     = (r, w1)"
    by (simp add: delete_body_def io_bind_def io_of_def)
  then show ?thesis
  proof (cases rule: io_then_cases)
    case (raised e)
    from os_remove_counts [OF raised(1)] raised(2) show ?thesis by simp
  next
    case (went_on wa)
    from reboot_step_counts [OF went_on(2)] show ?thesis by auto
  qed
qed

lemma delete_file_result:
  "fst (delete_file c src n w) = Inr ()
   \<or> (fst (delete_file c src n w) = Inl IndexError \<and> get_drive_path c src = Inl IndexError)"
proof -
  obtain r w1 where b: "delete_body c src w = (r, w1)" by fastforce
  let ?w2 = "time_sleep 1000 (print_if_verbose c retry_msg w1)"
  from delete_body_result [OF b]
  consider (ok) "r = Inr ()" | (os) "r = Inl OSError"
    | (ix) "r = Inl IndexError" "get_drive_path c src = Inl IndexError"
    by blast
  then show ?thesis
  proof cases
    case ok
    then show ?thesis by (simp add: delete_file_def b)
  next
    case ix
    then show ?thesis by (simp add: delete_file_def b)
  next
    case os
    show ?thesis
    proof (cases "0 < n")
      case False
      with os show ?thesis by (simp add: delete_file_def b)
    next
      case True
      with os have "delete_file c src n w = upload_file c src (n - 1) ?w2"
        by (simp add: delete_file_def b)
      with upload_file_bounds [of c src "n - 1" ?w2] show ?thesis by simp
    qed
  qed
qed

text \<open>
  Claim C6: when every attempt of an upload or of a delete fails with an \<open>OSError\<close> until
  the budget is used up, the call returns normally and its last action is to hand the
  give-up message to \<open>print_if_verbose\<close> (so it is the last line printed when \<open>verbose\<close>
  is set). In no world does \<open>upload_file\<close>, \<open>delete_file\<close> or an event handler end with
  an \<open>OSError\<close>.
\<close>

theorem C6_exhausted_retries_return_normally:
  "(upload_all_fail c src n w \<longrightarrow>
      (\<exists>w1. upload_file c src n w = (Inr (), print_if_verbose c giveup_msg w1)
           \<and> (verbose c \<longrightarrow>
                last (trace (snd (upload_file c src n w))) = Did (Print giveup_msg))))
   \<and> (delete_all_fail c src n w \<longrightarrow>
      (\<exists>w1. delete_file c src n w = (Inr (), print_if_verbose c giveup_msg w1)
           \<and> (verbose c \<longrightarrow>
                last (trace (snd (delete_file c src n w))) = Did (Print giveup_msg))))
   \<and> fst (upload_file c src n w) \<noteq> Inl OSError
   \<and> fst (delete_file c src n w) \<noteq> Inl OSError
   \<and> fst (on_modified c src w) \<noteq> Inl OSError
   \<and> fst (on_created c src w) \<noteq> Inl OSError
   \<and> fst (on_deleted c src w) \<noteq> Inl OSError"
proof -
  have up: "fst (upload_file c src m v) \<noteq> Inl OSError" for m v
    using upload_file_bounds [of c src m v] by blast
  have del: "fst (delete_file c src m v) \<noteq> Inl OSError" for m v
    using delete_file_result [of c src m v] by auto
  have a: "\<exists>w1. upload_file c src n w = (Inr (), print_if_verbose c giveup_msg w1)
           \<and> (verbose c \<longrightarrow>
                last (trace (snd (upload_file c src n w))) = Did (Print giveup_msg))"
    if "upload_all_fail c src n w"
    using upload_all_fail_giveup [OF that] by auto
  have b: "\<exists>w1. delete_file c src n w = (Inr (), print_if_verbose c giveup_msg w1)
           \<and> (verbose c \<longrightarrow>
                last (trace (snd (delete_file c src n w))) = Did (Print giveup_msg))"
    if "delete_all_fail c src n w"
    using delete_all_fail_giveup [OF that] by auto
  have m: "fst (on_modified c src w) \<noteq> Inl OSError"
    using up get_drive_path_result [of c src] by (auto simp: on_modified_eq split: sum.splits)
  have cr: "fst (on_created c src w) \<noteq> Inl OSError"
    using up get_drive_path_result [of c src] by (auto simp: on_created_eq split: sum.splits)
  have d: "fst (on_deleted c src w) \<noteq> Inl OSError"
    using del get_drive_path_result [of c src] by (auto simp: on_deleted_eq split: sum.splits)
  from a b up del m cr d show ?thesis by blast
qed


theorem C6_exhausted_retries_return_normally_witness:
  "upload_all_fail plain_session ''/a/gone.txt'' 4 fresh_world
   \<and> delete_all_fail plain_session ''/a/gone.txt'' 4 fresh_world
   \<and> verbose plain_session
   \<and> (\<exists>w1. upload_file plain_session ''/a/gone.txt'' 4 fresh_world
              = (Inr (), print_if_verbose plain_session giveup_msg w1))
   \<and> last (trace (snd (upload_file plain_session ''/a/gone.txt'' 4 fresh_world)))
       = Did (Print giveup_msg)
   \<and> (\<exists>w1. delete_file plain_session ''/a/gone.txt'' 4 fresh_world
              = (Inr (), print_if_verbose plain_session giveup_msg w1))
   \<and> last (trace (snd (delete_file plain_session ''/a/gone.txt'' 4 fresh_world)))
       = Did (Print giveup_msg)"
proof -
  have u: "upload_all_fail plain_session ''/a/gone.txt'' 4 fresh_world"
    by (simp add: upload_all_fail.simps run_defs plain_session_def fresh_world_def)
  have d: "delete_all_fail plain_session ''/a/gone.txt'' 4 fresh_world"
    by (simp add: delete_all_fail_def upload_all_fail.simps run_defs plain_session_def
          fresh_world_def)
  have v: "verbose plain_session" by (simp add: plain_session_def)
  from C6_exhausted_retries_return_normally
         [of plain_session "''/a/gone.txt''" 4 fresh_world] u d v
  show ?thesis by blast
qed

section \<open>The soft reboot\<close>

text \<open>
  Claim C7: a soft reboot that meets no serial fault opens the configured port at 115200
  baud with timeout 1, writes the byte 0x03, waits 100 ms, writes the byte 0x04, waits
  100 ms and closes the port, in this order and with no other call than the two console
  lines. In every world the calls made are an initial part of this sequence (a failing
  call is the last one), and a reboot that returns normally has made all of them.
\<close>

theorem C7_reboot_call_sequence:
  assumes "port c = Some p" and "reboot_board c w = (r, w1)"
  shows "(no_fault 3 (serial_faults w) \<longrightarrow>
            r = Inr ()
          \<and> trace w1 = trace w @ [Did (SerialOpen p 115200 1)]
               @ (if verbose c then [Did (Print ''Soft rebooting board'')] else [])
               @ [Did (SerialWrite [0x03]), Did (Sleep 100), Did (SerialWrite [0x04]),
                  Did (Sleep 100), Did SerialClose]
               @ (if verbose c then [Did (Print ''Soft rebooting complete'')] else []))
       \<and> (\<exists>evs. trace w1 = trace w @ evs
             \<and> prefix (map call_of (filter (\<lambda>e. \<not> is_print e) evs)) (reboot_calls p)
             \<and> (r = Inr () \<longrightarrow>
                  filter (\<lambda>e. \<not> is_print e) evs = map Did (reboot_calls p)))"
proof -
  have "r = Inr ()
          \<and> trace w1 = trace w @ [Did (SerialOpen p 115200 1)]
               @ (if verbose c then [Did (Print ''Soft rebooting board'')] else [])
               @ [Did (SerialWrite [0x03]), Did (Sleep 100), Did (SerialWrite [0x04]),
                  Did (Sleep 100), Did SerialClose]
               @ (if verbose c then [Did (Print ''Soft rebooting complete'')] else [])"
    if "no_fault 3 (serial_faults w)"
    using reboot_board_ok [OF assms(1) that] assms(2) by auto
  with reboot_board_calls [OF assms] show ?thesis by blast
qed

theorem C7_reboot_call_sequence_witness:
  "port board_session = Some ''COM4''
   \<and> no_fault 3 (serial_faults fresh_world)
   \<and> fst (reboot_board board_session fresh_world) = Inr ()
   \<and> trace (snd (reboot_board board_session fresh_world)) =
          [Did (SerialOpen ''COM4'' 115200 1), Did (Print ''Soft rebooting board''),
           Did (SerialWrite [0x03]), Did (Sleep 100), Did (SerialWrite [0x04]),
           Did (Sleep 100), Did SerialClose, Did (Print ''Soft rebooting complete'')]
   \<and> fst (reboot_board board_session (fresh_world\<lparr>serial_faults := [False, True]\<rparr>))
       = Inl OSError
   \<and> prefix (map call_of (filter (\<lambda>e. \<not> is_print e)
         (trace (snd (reboot_board board_session (fresh_world\<lparr>serial_faults := [False, True]\<rparr>))))))
        (reboot_calls ''COM4'')"
proof -
  let ?w = "fresh_world\<lparr>serial_faults := [False, True]\<rparr>"
  have p: "port board_session = Some ''COM4''" by (simp add: board_session_def)
  have nf: "no_fault 3 (serial_faults fresh_world)" by (simp add: fresh_world_def no_fault_def)
  have e: "trace fresh_world = []" "trace ?w = []" "verbose board_session"
    by (simp_all add: fresh_world_def board_session_def)
  obtain r w1 where rb: "reboot_board board_session fresh_world = (r, w1)" by fastforce
  from C7_reboot_call_sequence [OF p rb] nf e
  have full: "r = Inr ()" "trace w1 =
          [Did (SerialOpen ''COM4'' 115200 1), Did (Print ''Soft rebooting board''),
           Did (SerialWrite [0x03]), Did (Sleep 100), Did (SerialWrite [0x04]),
           Did (Sleep 100), Did SerialClose, Did (Print ''Soft rebooting complete'')]"
    by simp_all
  obtain r2 w2 where rb2: "reboot_board board_session ?w = (r2, w2)" by fastforce
  have failed: "fst (reboot_board board_session ?w) = Inl OSError"
    by (simp add: reboot_board_def io_defs serial_Serial_def com_write_def hd_fault_def
          Let_def board_session_def fresh_world_def)
  from C7_reboot_call_sequence [OF p rb2] e
  have "prefix (map call_of (filter (\<lambda>e. \<not> is_print e) (trace w2))) (reboot_calls ''COM4'')"
    by auto
  with rb rb2 p nf full failed show ?thesis by simp
qed


end
